theory Spec2Isabelle
  imports Complex_Main
begin

section \<open>Python values used by the model\<close>

text \<open>
  Python strings are modelled as \<open>string\<close>: one \<open>char\<close> per character, so the
  model covers the texts whose code points are below 256. Python integers are \<open>int\<close>.
  A dictionary is an association list in insertion order, as a Python \<open>dict\<close> keeps
  it; its keys are distinct. Every exception the modelled code can raise is a value of
  \<open>error\<close>, and a call that may raise returns \<open>error + 'a\<close>.
\<close>

datatype pyval = PNone | PStr string | PInt int | PBool bool | PDict "(string \<times> pyval) list"

type_synonym pydict = "(string \<times> pyval) list"

datatype error =
    IndexError
  | KeyError
  | ValueError string
  | FileNotFoundError string
  | ValidationError
  | UpstreamError

text \<open>\<open>d[k] = v\<close>: an existing key keeps its position, a new key goes last.\<close>

fun dict_set :: "'k \<Rightarrow> 'v \<Rightarrow> ('k \<times> 'v) list \<Rightarrow> ('k \<times> 'v) list" where
  "dict_set k v [] = [(k, v)]"
| "dict_set k v ((k', v') # d) = (if k = k' then (k, v) # d else (k', v') # dict_set k v d)"



section \<open>The text splitter (src/core/text\_splitter.py)\<close>

subsection \<open>Strings: whitespace, strip, slices\<close>

text \<open>
  \<open>str.strip()\<close> and the regular expression class \<open>\s\<close> both use Python's Unicode
  whitespace test; below 256 these are the code points 9 to 13, 28 to 32, 133 and 160.
\<close>

definition is_space :: "char \<Rightarrow> bool" where
  "is_space c =
     (let n = (of_char c :: nat)
      in (9 \<le> n \<and> n \<le> 13) \<or> (28 \<le> n \<and> n \<le> 32) \<or> n = 133 \<or> n = 160)"

definition newline :: char where
  "newline = CHR 0x0A"

definition strip :: "string \<Rightarrow> string" where
  "strip s = rev (dropWhile is_space (rev (dropWhile is_space s)))"

text \<open>
  \<open>s[i:j]\<close> with Python's rules: a negative bound counts from the end, and every bound
  is clamped to the string.
\<close>

definition slice_bound :: "int \<Rightarrow> int \<Rightarrow> int" where
  "slice_bound n k = (if k < 0 then max 0 (k + n) else min k n)"

definition py_slice :: "'a list \<Rightarrow> int \<Rightarrow> int \<Rightarrow> 'a list" where
  "py_slice xs i j =
     (let n = int (length xs); a = slice_bound n i; b = slice_bound n j
      in take (nat (b - a)) (drop (nat a) xs))"

subsection \<open>The sentence boundary pattern\<close>

text \<open>
  \<open>sentence_endings = re.compile(r'([.!?]\s+|\.\n+|\n\n+)')\<close>.
  \<open>finditer\<close> scans from the left; at each position the alternatives are tried in
  order, each repetition is greedy, and the scan resumes at the end of a match.
  \<open>sentence_endings p s\<close> lists the end offset of every match in \<open>s\<close>, where \<open>p\<close> is
  the offset of the first character of \<open>s\<close>.
\<close>

function sentence_endings :: "nat \<Rightarrow> string \<Rightarrow> nat list" where
  "sentence_endings p [] = []"
| "sentence_endings p (c # cs) =
     (if (c = CHR ''.'' \<or> c = CHR ''!'' \<or> c = CHR ''?'') \<and> cs \<noteq> [] \<and> is_space (hd cs) then
        (p + 1 + length (takeWhile is_space cs))
          # sentence_endings (p + 1 + length (takeWhile is_space cs)) (dropWhile is_space cs)
      else if c = CHR ''.'' \<and> cs \<noteq> [] \<and> hd cs = newline then
        (p + 1 + length (takeWhile (\<lambda>x. x = newline) cs))
          # sentence_endings (p + 1 + length (takeWhile (\<lambda>x. x = newline) cs))
              (dropWhile (\<lambda>x. x = newline) cs)
      else if c = newline \<and> cs \<noteq> [] \<and> hd cs = newline then
        (p + 1 + length (takeWhile (\<lambda>x. x = newline) cs))
          # sentence_endings (p + 1 + length (takeWhile (\<lambda>x. x = newline) cs))
              (dropWhile (\<lambda>x. x = newline) cs)
      else sentence_endings (p + 1) cs)"
  by pat_completeness auto
termination
  by (relation "measure (\<lambda>(p, s). length s)") (auto simp: length_dropWhile_le less_Suc_eq_le)

subsection \<open>Configuration and chunks\<close>

record text_splitter =
  chunk_size :: int
  chunk_overlap :: int
  min_chunk_size :: int

record chunk =
  chunk_text :: string
  chunk_index :: int
  start_char :: int
  end_char :: int
  char_count :: int
  metadata :: "pydict option"

text \<open>
  \<open>int(self.chunk_size * 0.2)\<close>: the product is a float and \<open>int\<close> truncates toward
  zero. For every chunk size of magnitude below \<open>2 ^ 52\<close> the float product lies within
  a quarter of a unit of the exact fifth, so the result is the truncated fifth.
\<close>

definition look_back :: "int \<Rightarrow> int" where
  "look_back cs = (if 0 \<le> cs then cs div 5 else - ((- cs) div 5))"

text \<open>\<open>if metadata:\<close> holds for a dictionary that is given and not empty.\<close>

fun truthy :: "pydict option \<Rightarrow> bool" where
  "truthy None = False"
| "truthy (Some d) = (d \<noteq> [])"

subsection \<open>One iteration of the scan\<close>

text \<open>Lines 70 to 84: the end of the window that starts at \<open>current_pos\<close>.\<close>

definition window_end :: "text_splitter \<Rightarrow> string \<Rightarrow> int \<Rightarrow> int" where
  "window_end cfg t current_pos =
     (let end_pos = min (current_pos + chunk_size cfg) (int (length t))
      in if end_pos < int (length t) then
           (let search_start = max current_pos (end_pos - look_back (chunk_size cfg));
                matches = sentence_endings 0 (py_slice t search_start end_pos)
            in if matches \<noteq> [] then search_start + int (last matches) else end_pos)
         else end_pos)"

text \<open>Lines 108 to 112: the cursor after the window \<open>[current_pos, end_pos)\<close>.\<close>

definition next_pos :: "text_splitter \<Rightarrow> int \<Rightarrow> int \<Rightarrow> int" where
  "next_pos cfg current_pos end_pos =
     (let p = max (current_pos + 1) (end_pos - chunk_overlap cfg)
      in if p \<ge> end_pos then end_pos else p)"

text \<open>Lines 91 to 102: the chunk of a window in the scan.\<close>

definition loop_chunk :: "string \<Rightarrow> pydict option \<Rightarrow> int \<Rightarrow> int \<Rightarrow> int \<Rightarrow> chunk" where
  "loop_chunk t meta current_pos end_pos idx =
     \<lparr> chunk_text = strip (py_slice t current_pos end_pos),
       chunk_index = idx,
       start_char = current_pos,
       end_char = end_pos,
       char_count = int (length (strip (py_slice t current_pos end_pos))),
       metadata = (if truthy meta
                   then Some (dict_set ''chunk_index'' (PInt idx) (the meta))
                   else None) \<rparr>"

text \<open>Line 90: a window is kept when its trimmed text is long enough or no chunk exists yet.\<close>

definition keeps :: "text_splitter \<Rightarrow> string \<Rightarrow> int \<Rightarrow> int \<Rightarrow> int \<Rightarrow> bool" where
  "keeps cfg t current_pos end_pos idx =
     (int (length (strip (py_slice t current_pos end_pos))) \<ge> min_chunk_size cfg \<or> idx = 0)"

subsection \<open>The scan and split\_text\<close>

text \<open>
  The \<open>while\<close> loop of lines 68 to 112. A scan that never ends has the value \<open>None\<close>.
\<close>

partial_function (option) split_loop ::
  "text_splitter \<Rightarrow> string \<Rightarrow> pydict option \<Rightarrow> int \<Rightarrow> int \<Rightarrow> chunk list \<Rightarrow> chunk list option"
where
  "split_loop cfg t meta current_pos idx chunks =
     (if current_pos < int (length t) then
        (let end_pos = window_end cfg t current_pos
         in if keeps cfg t current_pos end_pos idx
            then split_loop cfg t meta (next_pos cfg current_pos end_pos) (idx + 1)
                   (chunks @ [loop_chunk t meta current_pos end_pos idx])
            else split_loop cfg t meta (next_pos cfg current_pos end_pos) idx chunks)
      else Some chunks)"

declare split_loop.simps [code]

definition single_chunk :: "string \<Rightarrow> pydict option \<Rightarrow> chunk" where
  "single_chunk t meta =
     \<lparr> chunk_text = t,
       chunk_index = 0,
       start_char = 0,
       end_char = int (length t),
       char_count = int (length t),
       metadata = (if truthy meta then meta else None) \<rparr>"

definition split_text :: "text_splitter \<Rightarrow> string \<Rightarrow> pydict option \<Rightarrow> chunk list option" where
  "split_text cfg text0 meta =
     (if text0 = [] \<or> strip text0 = [] then Some []
      else if int (length (strip text0)) \<le> chunk_size cfg
           then Some [single_chunk (strip text0) meta]
           else split_loop cfg (strip text0) meta 0 0 [])"

subsection \<open>Predicates used to state the chunk properties\<close>

text \<open>
  What holds of the chunk at position \<open>i\<close> of the list returned for the trimmed
  text \<open>t\<close>.
\<close>

definition chunk_ok :: "string \<Rightarrow> chunk \<Rightarrow> nat \<Rightarrow> bool" where
  "chunk_ok t c i =
     (chunk_index c = int i \<and> start_char c < end_char c
      \<and> char_count c = int (length (chunk_text c))
      \<and> chunk_text c = strip (py_slice t (start_char c) (end_char c))
      \<and> char_count c \<le> end_char c - start_char c)"

text \<open>
  A window that starts strictly between two chunks, reaches the start of the second one
  and whose trimmed text is shorter than \<open>min_chunk_size\<close>: the scan drops such a
  window (line 90) once a first chunk exists.
\<close>

definition dropped_between :: "text_splitter \<Rightarrow> string \<Rightarrow> chunk \<Rightarrow> chunk \<Rightarrow> bool" where
  "dropped_between cfg t c c' =
     (\<exists>p \<in> set [start_char c + 1 .. start_char c' - 1].
          start_char c' \<le> window_end cfg t p
          \<and> int (length (strip (py_slice t p (window_end cfg t p)))) < min_chunk_size cfg)"

section \<open>The LRU cache (src/utils/cache.py)\<close>

text \<open>
  \<open>LRUCache\<close> holds \<open>maxsize\<close>, the dictionary \<open>cache\<close> and the list
  \<open>access_order\<close>. Every operation first turns its arguments into a key with
  \<open>_make_key\<close> (an MD5 digest of their JSON text); the model starts from that key, so
  \<open>'k\<close> is the type of digests and two calls have the same key exactly when
  \<open>_make_key\<close> gives them the same digest.
\<close>

record ('k, 'v) lru_cache =
  maxsize :: int
  cache :: "('k \<times> 'v) list"
  access_order :: "'k list"






definition lru_clear :: "('k, 'v) lru_cache \<Rightarrow> ('k, 'v) lru_cache" where
  "lru_clear c = c\<lparr>cache := [], access_order := []\<rparr>"




section \<open>The vector store (src/database/chroma\_manager.py)\<close>

subsection \<open>The ChromaDB collection\<close>

text \<open>
  The collection is an external library. It is modelled as the list of its records, with
  the operations the code calls: \<open>count\<close>, \<open>query\<close> and \<open>delete\<close> with a \<open>where\<close> filter
  on one metadata field, and \<open>add\<close>. Any call of the library may raise; \<open>faults\<close> says
  which of the coming calls do (\<open>True\<close>: the call raises and changes nothing); once the
  list is used up no call raises. An exception of the library is \<open>UpstreamError\<close>.
\<close>

record stored =
  rec_id :: string
  rec_document :: string
  rec_metadata :: pydict
  rec_embedding :: "real list"

record collection =
  records :: "stored list"
  faults :: "bool list"

definition next_fault :: "collection \<Rightarrow> bool \<times> collection" where
  "next_fault c = (case faults c of [] \<Rightarrow> (False, c) | f # fs \<Rightarrow> (f, c\<lparr>faults := fs\<rparr>))"

text \<open>\<open>where = {field: value}\<close>.\<close>

definition matches :: "string \<Rightarrow> string \<Rightarrow> stored \<Rightarrow> bool" where
  "matches field val r = (map_of (rec_metadata r) field = Some (PStr val))"

definition coll_count :: "collection \<Rightarrow> (error + int) \<times> collection" where
  "coll_count c =
     (case next_fault c of
        (True, c') \<Rightarrow> (Inl UpstreamError, c')
      | (False, c') \<Rightarrow> (Inr (int (length (records c'))), c'))"

text \<open>
  \<open>collection.query(query_texts=[""], n_results=n, where={field: value})\<close>: the answer
  has one list of ids for the one query text, with at most \<open>n\<close> of the matching records.
\<close>

definition coll_query ::
  "collection \<Rightarrow> string \<Rightarrow> string \<Rightarrow> nat \<Rightarrow> (error + string list list) \<times> collection" where
  "coll_query c field val n =
     (case next_fault c of
        (True, c') \<Rightarrow> (Inl UpstreamError, c')
      | (False, c') \<Rightarrow>
          (Inr [take n (map rec_id (filter (matches field val) (records c')))], c'))"

definition coll_delete :: "collection \<Rightarrow> string \<Rightarrow> string \<Rightarrow> (error + unit) \<times> collection" where
  "coll_delete c field val =
     (case next_fault c of
        (True, c') \<Rightarrow> (Inl UpstreamError, c')
      | (False, c') \<Rightarrow>
          (Inr (), c'\<lparr>records := filter (\<lambda>r. \<not> matches field val r) (records c')\<rparr>))"

definition coll_add :: "collection \<Rightarrow> stored list \<Rightarrow> (error + unit) \<times> collection" where
  "coll_add c new =
     (case next_fault c of
        (True, c') \<Rightarrow> (Inl UpstreamError, c')
      | (False, c') \<Rightarrow> (Inr (), c'\<lparr>records := records c' @ new\<rparr>))"

subsection \<open>ChromaManager\<close>

text \<open>\<open>count\<close> (lines 247 to 253): an exception of the collection becomes the value 0.\<close>

definition count :: "collection \<Rightarrow> int \<times> collection" where
  "count c = (case coll_count c of (Inl e, c') \<Rightarrow> (0, c') | (Inr n, c') \<Rightarrow> (n, c'))"

text \<open>\<open>delete(where=...)\<close> (lines 179 to 195): logs and raises again.\<close>

definition chroma_delete :: "collection \<Rightarrow> string \<Rightarrow> string \<Rightarrow> (error + unit) \<times> collection" where
  "chroma_delete c field val = coll_delete c field val"

text \<open>
  \<open>add_documents\<close> (lines 64 to 128), called with embeddings and ids. The collection
  itself refuses embeddings that are not one per document.
\<close>

definition add_documents ::
  "collection \<Rightarrow> string list \<Rightarrow> pydict list \<Rightarrow> real list list \<Rightarrow> string list
     \<Rightarrow> (error + string list) \<times> collection" where
  "add_documents c documents metadatas embeddings ids =
     (if documents = [] then (Inr [], c)
      else if length documents \<noteq> length metadatas \<or> length documents \<noteq> length ids
      then (Inl (ValueError ''List sizes must match''), c)
      else if length embeddings \<noteq> length documents then (Inl UpstreamError, c)
      else (case coll_add c
                   (map (\<lambda>(i, d, m, e). \<lparr>rec_id = i, rec_document = d, rec_metadata = m,
                                          rec_embedding = e\<rparr>)
                      (zip ids (zip documents (zip metadatas embeddings)))) of
              (Inl e, c') \<Rightarrow> (Inl e, c')
            | (Inr u, c') \<Rightarrow> (Inr ids, c')))"

section \<open>The indexing service (src/services/indexing\_service.py)\<close>

subsection \<open>delete\_document\<close>

record delete_result =
  success :: bool
  deleted_count :: int
  message :: string

text \<open>\<open>if document_id:\<close> holds for a string that is given and not empty.\<close>

fun given :: "string option \<Rightarrow> bool" where
  "given None = False"
| "given (Some s) = (s \<noteq> [])"

text \<open>
  Lines 236 to 240 and 261 to 265, the \<open>except Exception\<close> branch: delete without
  the check, then compare the count with the one taken before.
\<close>

definition delete_fallback ::
  "collection \<Rightarrow> string \<Rightarrow> string \<Rightarrow> string \<Rightarrow> int \<Rightarrow> (error + unit) \<times> collection" where
  "delete_fallback c field val msg count_before =
     (case chroma_delete c field val of
        (Inl e, c1) \<Rightarrow> (Inl e, c1)
      | (Inr u, c1) \<Rightarrow>
          (case count c1 of
             (count_check, c2) \<Rightarrow>
               if count_check = count_before then (Inl (ValueError msg), c2) else (Inr (), c2)))"

text \<open>
  Lines 215 to 240 and 243 to 265, one selector: look one matching record up, raise
  \<open>ValueError\<close> when there is none, delete; an exception of the look-up or of the delete
  that is not a \<open>ValueError\<close> leads to the fallback.
\<close>

definition delete_checked ::
  "collection \<Rightarrow> string \<Rightarrow> string \<Rightarrow> string \<Rightarrow> int \<Rightarrow> (error + unit) \<times> collection" where
  "delete_checked c field val msg count_before =
     (case coll_query c field val 1 of
        (Inl e, c1) \<Rightarrow> delete_fallback c1 field val msg count_before
      | (Inr ids, c1) \<Rightarrow>
          if ids = [] \<or> hd ids = [] then (Inl (ValueError msg), c1)
          else (case chroma_delete c1 field val of
                  (Inl e, c2) \<Rightarrow> delete_fallback c2 field val msg count_before
                | (Inr u, c2) \<Rightarrow> (Inr (), c2)))"

definition delete_document ::
  "collection \<Rightarrow> string option \<Rightarrow> string option \<Rightarrow> (error + delete_result) \<times> collection" where
  "delete_document c document_id file_path =
     (if \<not> given document_id \<and> \<not> given file_path
      then (Inl (ValueError ''Must specify document_id or file_path''), c)
      else
        (case count c of
           (count_before, c1) \<Rightarrow>
             (case (if given document_id
                    then delete_checked c1 ''document_id'' (the document_id)
                           (''Document with ID '' @ the document_id @ '' not found in index'')
                           count_before
                    else delete_checked c1 ''file_path'' (the file_path)
                           (''Document at path '' @ the file_path @ '' not found in index'')
                           count_before) of
                (Inl e, c2) \<Rightarrow> (Inl e, c2)
              | (Inr u, c2) \<Rightarrow>
                  (case count c2 of
                     (count_after, c3) \<Rightarrow>
                       (Inr \<lparr> success = True,
                              deleted_count = count_before - count_after,
                              message = ''Document deleted from index'' \<rparr>, c3)))))"

subsection \<open>Terms used to state the properties of delete\_document\<close>

text \<open>
  The metadata field and value that \<open>delete_document\<close> filters on (the document id
  when it is given, else the file path), and the text of the \<open>ValueError\<close> it raises
  when nothing matches.
\<close>

definition selector :: "string option \<Rightarrow> string option \<Rightarrow> string \<times> string" where
  "selector document_id file_path =
     (if given document_id then (''document_id'', the document_id)
      else (''file_path'', the file_path))"

definition not_found_message :: "string option \<Rightarrow> string option \<Rightarrow> string" where
  "not_found_message document_id file_path =
     (if given document_id then ''Document with ID '' @ the document_id @ '' not found in index''
      else ''Document at path '' @ the file_path @ '' not found in index'')"

subsection \<open>index\_document\<close>

text \<open>
  What the document converter returns for a file (document\_processor.py, lines 99 to
  111): a dictionary that always has these keys.
\<close>

record document =
  doc_file_path :: string
  doc_file_name :: string
  doc_file_type :: string
  full_text :: string
  tables :: "pydict list"
  images :: "pydict list"
  doc_metadata :: pydict

text \<open>\<open>split_document\<close> (text\_splitter.py, lines 117 to 148).\<close>

definition split_metadata :: "document \<Rightarrow> pydict" where
  "split_metadata d =
     [(''file_path'', PStr (doc_file_path d)), (''file_name'', PStr (doc_file_name d)),
      (''file_type'', PStr (doc_file_type d)), (''document_metadata'', PDict (doc_metadata d))]
     @ (if tables d \<noteq> []
        then [(''has_tables'', PBool True), (''tables_count'', PInt (int (length (tables d))))]
        else [])
     @ (if images d \<noteq> []
        then [(''has_images'', PBool True), (''images_count'', PInt (int (length (images d))))]
        else [])"

definition split_document :: "text_splitter \<Rightarrow> document \<Rightarrow> chunk list option" where
  "split_document cfg d = split_text cfg (full_text d) (Some (split_metadata d))"

text \<open>
  \<open>encode_chunks\<close> (embeddings.py): the embedding collaborator \<open>encode\<close> gets the
  texts and may raise; the chunk at position \<open>i\<close> gets \<open>embeddings[i]\<close>, which raises
  IndexError when there are too few embeddings.
\<close>

definition encode_chunks ::
  "(string list \<Rightarrow> error + real list list) \<Rightarrow> chunk list \<Rightarrow> error + (chunk \<times> real list) list"
where
  "encode_chunks encode chunks =
     (if chunks = [] then Inr []
      else (case encode (map chunk_text chunks) of
              Inl e \<Rightarrow> Inl e
            | Inr embeddings \<Rightarrow>
                if length embeddings < length chunks then Inl IndexError
                else Inr (zip chunks embeddings)))"

text \<open>\<open>str(n)\<close> for an integer: decimal digits, with a sign for a negative number.\<close>

fun str_nat :: "nat \<Rightarrow> string" where
  "str_nat n =
     (if n < 10 then [char_of (48 + n)]
      else str_nat (n div 10) @ [char_of (48 + n mod 10)])"

declare str_nat.simps [simp del]

definition py_str :: "int \<Rightarrow> string" where
  "py_str i = (if i < 0 then CHR ''-'' # str_nat (nat (- i)) else str_nat (nat i))"

text \<open>Lines 108 to 117: copy a key of the chunk's metadata when it is there.\<close>

definition copy_key :: "string \<Rightarrow> pydict \<Rightarrow> pydict \<Rightarrow> pydict" where
  "copy_key k src dst = (case map_of src k of Some v \<Rightarrow> dict_set k v dst | None \<Rightarrow> dst)"

text \<open>Lines 96 to 119: the metadata stored with one chunk.\<close>

definition record_metadata :: "string \<Rightarrow> document \<Rightarrow> chunk \<Rightarrow> pydict" where
  "record_metadata document_id d ch =
     (let base = [(''document_id'', PStr document_id),
                  (''file_path'', PStr (doc_file_path d)),
                  (''file_name'', PStr (doc_file_name d)),
                  (''file_type'', PStr (doc_file_type d)),
                  (''chunk_index'', PInt (chunk_index ch)),
                  (''start_char'', PInt (start_char ch)),
                  (''end_char'', PInt (end_char ch)),
                  (''char_count'', PInt (char_count ch))]
      in if truthy (metadata ch)
         then copy_key ''images_count'' (the (metadata ch))
                (copy_key ''has_images'' (the (metadata ch))
                  (copy_key ''tables_count'' (the (metadata ch))
                    (copy_key ''has_tables'' (the (metadata ch)) base)))
         else base)"

text \<open>Line 122: \<open>f"{document_id}_chunk_{i}"\<close> for the position \<open>i\<close> of \<open>enumerate\<close>.\<close>

definition chunk_id :: "string \<Rightarrow> nat \<Rightarrow> string" where
  "chunk_id document_id i = document_id @ ''_chunk_'' @ py_str (int i)"

record index_result =
  indexed :: bool
  indexed_document_id :: string
  chunks_count :: int
  indexed_file_path :: string
  indexed_file_name :: string
  indexed_message :: string

text \<open>Lines 84 to 147: from the embedded chunks to the stored records.\<close>

definition store_chunks ::
  "string \<Rightarrow> document \<Rightarrow> (chunk \<times> real list) list \<Rightarrow> collection \<Rightarrow> string \<Rightarrow> bool
     \<Rightarrow> (error + index_result) \<times> collection" where
  "store_chunks document_id d chunks_with_embeddings c file_path overwrite =
     (let documents = map (\<lambda>ce. chunk_text (fst ce)) chunks_with_embeddings;
          embeddings = map snd chunks_with_embeddings;
          metadatas = map (\<lambda>ce. record_metadata document_id d (fst ce)) chunks_with_embeddings;
          ids = map (\<lambda>ie. chunk_id document_id (fst ie)) (enumerate 0 chunks_with_embeddings);
          result = \<lparr> indexed = True,
                     indexed_document_id = document_id,
                     chunks_count = int (length chunks_with_embeddings),
                     indexed_file_path = file_path,
                     indexed_file_name = doc_file_name d,
                     indexed_message = ''Document successfully indexed: ''
                        @ py_str (int (length chunks_with_embeddings)) @ '' chunks'' \<rparr>
      in case (if overwrite then chroma_delete c ''file_path'' file_path else (Inr (), c)) of
           (Inl e, c1) \<Rightarrow> (Inl e, c1)
         | (Inr u, c1) \<Rightarrow>
             (case add_documents c1 documents metadatas embeddings ids of
                (Inl e, c2) \<Rightarrow> (Inl e, c2)
              | (Inr added, c2) \<Rightarrow> (Inr result, c2)))"

text \<open>
  \<open>index_document\<close> (lines 52 to 151). The outside world is given by: whether the file
  exists, what the converter returns for it (\<open>None\<close> on failure), the embedding
  collaborator, and the fresh \<open>uuid4\<close> string. The result is \<open>None\<close> when the splitter
  does not return.
\<close>

definition index_document ::
  "text_splitter \<Rightarrow> bool \<Rightarrow> document option \<Rightarrow> (string list \<Rightarrow> error + real list list)
     \<Rightarrow> string \<Rightarrow> collection \<Rightarrow> string \<Rightarrow> bool
     \<Rightarrow> ((error + index_result) \<times> collection) option" where
  "index_document cfg file_exists processed encode document_id c file_path overwrite =
     (if \<not> file_exists then Some (Inl (FileNotFoundError (''File not found: '' @ file_path)), c)
      else
        (case processed of
           None \<Rightarrow> Some (Inl (ValueError (''Failed to process document: '' @ file_path)), c)
         | Some d \<Rightarrow>
             (case split_document cfg d of
                None \<Rightarrow> None
              | Some chunks \<Rightarrow>
                  if chunks = []
                  then Some (Inl (ValueError (''Failed to split document into chunks: ''
                                     @ file_path)), c)
                  else
                    (case encode_chunks encode chunks of
                       Inl e \<Rightarrow> Some (Inl e, c)
                     | Inr chunks_with_embeddings \<Rightarrow>
                         Some (store_chunks document_id d chunks_with_embeddings c
                                 file_path overwrite)))))"

section \<open>The search service (src/services/search\_service.py)\<close>















section \<open>Properties of the text splitter\<close>

subsection \<open>Bounds on one iteration\<close>

lemma sentence_endings_bounds:
  "e \<in> set (sentence_endings p s) \<Longrightarrow> p < e \<and> e \<le> p + length s"
proof (induction p s arbitrary: e rule: sentence_endings.induct)
  case (1 p)
  then show ?case by simp
next
  case (2 p c cs)
  have len: "\<And>P. length (takeWhile P cs) + length (dropWhile P cs) = length cs"
    by (metis length_append takeWhile_dropWhile_id)
  show ?case
  proof (cases "(c = CHR ''.'' \<or> c = CHR ''!'' \<or> c = CHR ''?'') \<and> cs \<noteq> [] \<and> is_space (hd cs)")
    case True
    have "e = p + 1 + length (takeWhile is_space cs)
        \<or> e \<in> set (sentence_endings (p + 1 + length (takeWhile is_space cs)) (dropWhile is_space cs))"
      using "2.prems" unfolding sentence_endings.simps(2) if_P [OF True] by simp
    then show ?thesis
    proof
      assume "e = p + 1 + length (takeWhile is_space cs)"
      then show ?thesis using len [of is_space] by simp
    next
      assume "e \<in> set (sentence_endings (p + 1 + length (takeWhile is_space cs)) (dropWhile is_space cs))"
      from "2.IH"(1) [OF True this] show ?thesis using len [of is_space] by simp
    qed
  next
    case F1: False
    show ?thesis
    proof (cases "c = CHR ''.'' \<and> cs \<noteq> [] \<and> hd cs = newline")
      case True
      have "e = p + 1 + length (takeWhile (\<lambda>x. x = newline) cs)
        \<or> e \<in> set (sentence_endings (p + 1 + length (takeWhile (\<lambda>x. x = newline) cs)) (dropWhile (\<lambda>x. x = newline) cs))"
        using "2.prems" unfolding sentence_endings.simps(2) if_not_P [OF F1] if_P [OF True] by simp
      then show ?thesis
      proof
        assume "e = p + 1 + length (takeWhile (\<lambda>x. x = newline) cs)"
        then show ?thesis using len [of "\<lambda>x. x = newline"] by simp
      next
        assume "e \<in> set (sentence_endings (p + 1 + length (takeWhile (\<lambda>x. x = newline) cs)) (dropWhile (\<lambda>x. x = newline) cs))"
        from "2.IH"(2) [OF F1 True this] show ?thesis using len [of "\<lambda>x. x = newline"] by simp
      qed
    next
      case F2: False
      show ?thesis
      proof (cases "c = newline \<and> cs \<noteq> [] \<and> hd cs = newline")
        case True
        have "e = p + 1 + length (takeWhile (\<lambda>x. x = newline) cs)
          \<or> e \<in> set (sentence_endings (p + 1 + length (takeWhile (\<lambda>x. x = newline) cs)) (dropWhile (\<lambda>x. x = newline) cs))"
          using "2.prems" unfolding sentence_endings.simps(2) if_not_P [OF F1] if_not_P [OF F2] if_P [OF True] by simp
        then show ?thesis
        proof
          assume "e = p + 1 + length (takeWhile (\<lambda>x. x = newline) cs)"
          then show ?thesis using len [of "\<lambda>x. x = newline"] by simp
        next
          assume "e \<in> set (sentence_endings (p + 1 + length (takeWhile (\<lambda>x. x = newline) cs)) (dropWhile (\<lambda>x. x = newline) cs))"
          from "2.IH"(3) [OF F1 F2 True this] show ?thesis using len [of "\<lambda>x. x = newline"] by simp
        qed
      next
        case F3: False
        have "e \<in> set (sentence_endings (p + 1) cs)"
          using "2.prems" unfolding sentence_endings.simps(2) if_not_P [OF F1] if_not_P [OF F2] if_not_P [OF F3] by simp
        from "2.IH"(4) [OF F1 F2 F3 this] show ?thesis by simp
      qed
    qed
  qed
qed

lemma py_slice_length:
  "0 \<le> a \<Longrightarrow> a \<le> b \<Longrightarrow> b \<le> int (length xs) \<Longrightarrow> length (py_slice xs a b) = nat (b - a)"
  by (simp add: py_slice_def slice_bound_def Let_def min_def) arith

lemma look_back_nonneg: "0 \<le> cs \<Longrightarrow> 0 \<le> look_back cs"
  by (simp add: look_back_def)

lemma window_end_bounds:
  assumes "1 \<le> chunk_size cfg" "0 \<le> cur" "cur < int (length t)"
  shows "cur < window_end cfg t cur \<and> window_end cfg t cur \<le> int (length t)"
proof -
  define e0 where "e0 = min (cur + chunk_size cfg) (int (length t))"
  define ss where "ss = max cur (e0 - look_back (chunk_size cfg))"
  define ms where "ms = sentence_endings 0 (py_slice t ss e0)"
  have e0: "cur < e0" "e0 \<le> int (length t)" using assms by (auto simp: e0_def)
  have ss: "cur \<le> ss" "ss \<le> e0" "0 \<le> ss"
    using assms e0 look_back_nonneg [of "chunk_size cfg"] by (auto simp: ss_def)
  have we: "window_end cfg t cur =
      (if e0 < int (length t) then (if ms \<noteq> [] then ss + int (last ms) else e0) else e0)"
    by (simp add: window_end_def Let_def e0_def ss_def ms_def)
  show ?thesis
  proof (cases "e0 < int (length t) \<and> ms \<noteq> []")
    case True
    then have "last ms \<in> set ms" by simp
    then have "0 < last ms \<and> last ms \<le> length (py_slice t ss e0)"
      using sentence_endings_bounds [of "last ms" 0 "py_slice t ss e0"] by (simp add: ms_def)
    moreover have "length (py_slice t ss e0) = nat (e0 - ss)"
      using ss e0 by (simp add: py_slice_length)
    ultimately show ?thesis using True we ss e0 by auto
  next
    case False
    then show ?thesis using we e0 by auto
  qed
qed

lemma next_pos_bounds:
  "cur < e \<Longrightarrow> cur < next_pos cfg cur e \<and> next_pos cfg cur e \<le> e"
  by (auto simp: next_pos_def Let_def)

lemma split_loop_rule:
  assumes cs: "1 \<le> chunk_size cfg"
    and step: "\<And>cur idx chunks. I cur idx chunks \<Longrightarrow> 0 \<le> cur \<Longrightarrow> cur < int (length t) \<Longrightarrow>
         (keeps cfg t cur (window_end cfg t cur) idx \<longrightarrow>
            I (next_pos cfg cur (window_end cfg t cur)) (idx + 1)
              (chunks @ [loop_chunk t meta cur (window_end cfg t cur) idx])) \<and>
         (\<not> keeps cfg t cur (window_end cfg t cur) idx \<longrightarrow>
            I (next_pos cfg cur (window_end cfg t cur)) idx chunks)"
    and init: "I cur idx chunks" "0 \<le> cur"
  shows "\<exists>out cur' idx'. split_loop cfg t meta cur idx chunks = Some out
            \<and> int (length t) \<le> cur' \<and> I cur' idx' out"
  using init
proof (induction "nat (int (length t) - cur)" arbitrary: cur idx chunks rule: less_induct)
  case less
  show ?case
  proof (cases "cur < int (length t)")
    case False
    then have "split_loop cfg t meta cur idx chunks = Some chunks"
      by (subst split_loop.simps) simp
    with False less.prems show ?thesis
      by (intro exI [of _ chunks] exI [of _ cur] exI [of _ idx]) simp
  next
    case True
    define e where "e = window_end cfg t cur"
    define n where "n = next_pos cfg cur e"
    have e: "cur < e" "e \<le> int (length t)"
      using window_end_bounds [OF cs less.prems(2) True] by (simp_all add: e_def)
    have n: "cur < n" "n \<le> e" using next_pos_bounds [OF e(1), of cfg] by (simp_all add: n_def)
    have dec: "nat (int (length t) - n) < nat (int (length t) - cur)" using n True by simp
    have n0: "0 \<le> n" using n less.prems(2) by simp
    from step [OF less.prems(1) less.prems(2) True]
    have st: "keeps cfg t cur e idx \<longrightarrow> I n (idx + 1) (chunks @ [loop_chunk t meta cur e idx])"
         "\<not> keeps cfg t cur e idx \<longrightarrow> I n idx chunks"
      by (simp_all add: e_def n_def)
    show ?thesis
    proof (cases "keeps cfg t cur e idx")
      case k: True
      have "split_loop cfg t meta cur idx chunks =
            split_loop cfg t meta n (idx + 1) (chunks @ [loop_chunk t meta cur e idx])"
        using True k by (subst split_loop.simps) (simp add: e_def n_def Let_def)
      moreover from less.hyps [OF dec _ n0] st k
      have "\<exists>out cur' idx'. split_loop cfg t meta n (idx + 1) (chunks @ [loop_chunk t meta cur e idx]) = Some out
            \<and> int (length t) \<le> cur' \<and> I cur' idx' out" by blast
      ultimately show ?thesis by simp
    next
      case k: False
      have "split_loop cfg t meta cur idx chunks = split_loop cfg t meta n idx chunks"
        using True k by (subst split_loop.simps) (simp add: e_def n_def Let_def)
      moreover from less.hyps [OF dec _ n0] st k
      have "\<exists>out cur' idx'. split_loop cfg t meta n idx chunks = Some out
            \<and> int (length t) \<le> cur' \<and> I cur' idx' out" by blast
      ultimately show ?thesis by simp
    qed
  qed
qed

subsection \<open>Termination\<close>

text \<open>
  C1. For every input string and every configuration with \<open>chunk_size \<ge> 1\<close>,
  \<open>split_text\<close> returns a list (the scan ends and nothing raises), and in every
  iteration the cursor moves forward by at least one character.
\<close>

theorem split_text_total:
  assumes "1 \<le> chunk_size cfg"
  shows "(\<exists>chunks. split_text cfg text0 meta = Some chunks)
       \<and> (\<forall>cur. 0 \<le> cur \<and> cur < int (length (strip text0))
             \<longrightarrow> cur + 1 \<le> next_pos cfg cur (window_end cfg (strip text0) cur))"
proof
  have "\<exists>out cur' idx'. split_loop cfg (strip text0) meta 0 0 [] = Some out
          \<and> int (length (strip text0)) \<le> cur' \<and> True"
    using split_loop_rule [of cfg "\<lambda>_ _ _. True" "strip text0" meta 0 0 "[]"] assms by simp
  then show "\<exists>chunks. split_text cfg text0 meta = Some chunks"
    by (auto simp: split_text_def)
next
  show "\<forall>cur. 0 \<le> cur \<and> cur < int (length (strip text0))
             \<longrightarrow> cur + 1 \<le> next_pos cfg cur (window_end cfg (strip text0) cur)"
  proof (intro allI impI)
    fix cur assume c: "0 \<le> cur \<and> cur < int (length (strip text0))"
    then have "cur < window_end cfg (strip text0) cur"
      using window_end_bounds [OF assms, of cur "strip text0"] by simp
    from next_pos_bounds [OF this, of cfg]
    show "cur + 1 \<le> next_pos cfg cur (window_end cfg (strip text0) cur)" by simp
  qed
qed

theorem split_text_total_witness:
  "1 \<le> chunk_size \<lparr>chunk_size = 10, chunk_overlap = 12, min_chunk_size = 5\<rparr>
   \<and> (\<exists>chunks. split_text \<lparr>chunk_size = 10, chunk_overlap = 12, min_chunk_size = 5\<rparr>
          ''One. Two three four five six.'' None = Some chunks)
   \<and> (0::int) + 1 \<le> next_pos \<lparr>chunk_size = 10, chunk_overlap = 12, min_chunk_size = 5\<rparr> 0
         (window_end \<lparr>chunk_size = 10, chunk_overlap = 12, min_chunk_size = 5\<rparr>
            (strip ''One. Two three four five six.'') 0)"
proof -
  have h: "1 \<le> chunk_size \<lparr>chunk_size = 10, chunk_overlap = 12, min_chunk_size = 5\<rparr>" by simp
  have l: "(0::int) \<le> 0 \<and> 0 < int (length (strip ''One. Two three four five six.''))"
    by (simp add: strip_def is_space_def)
  from split_text_total [OF h, of "''One. Two three four five six.''" None] l h
  show ?thesis by blast
qed

subsection \<open>The chunk invariant\<close>

lemma strip_length_le: "length (strip s) \<le> length s"
proof -
  have "length (strip s) \<le> length (dropWhile is_space s)"
    using length_dropWhile_le [of is_space "rev (dropWhile is_space s)"] by (simp add: strip_def)
  also have "\<dots> \<le> length s" by (rule length_dropWhile_le)
  finally show ?thesis .
qed

lemma strip_idem: "strip (strip s) = strip s"
proof -
  define u where "u = dropWhile is_space s"
  define v where "v = dropWhile is_space (rev u)"
  have keep: "dropWhile is_space (rev v) = rev v"
  proof (cases "v = []")
    case True
    then show ?thesis by simp
  next
    case False
    have ru: "rev u = takeWhile is_space (rev u) @ v"
      by (simp add: v_def)
    then have une: "u \<noteq> []" using False by auto
    have "last (rev u) = last v" using False by (subst ru) simp
    then have "hd u = last v" using une by (simp add: last_rev)
    moreover have "\<not> is_space (hd u)"
      using une hd_dropWhile [of is_space s] by (simp add: u_def)
    ultimately have "\<not> is_space (hd (rev v))" using False by (simp add: hd_rev)
    then show ?thesis using False by (cases "rev v") simp_all
  qed
  have "strip (strip s) = rev (dropWhile is_space (rev (dropWhile is_space (rev v))))"
    by (simp add: strip_def u_def v_def)
  also have "\<dots> = rev (dropWhile is_space v)" by (simp add: keep)
  also have "\<dots> = rev v" by (simp add: v_def)
  also have "\<dots> = strip s" by (simp add: strip_def u_def v_def)
  finally show ?thesis .
qed

lemma loop_chunk_ok:
  assumes "0 \<le> cur" "cur < e" "e \<le> int (length t)"
  shows "chunk_ok t (loop_chunk t meta cur e (int i)) i"
proof -
  have "length (strip (py_slice t cur e)) \<le> length (py_slice t cur e)" by (rule strip_length_le)
  also have "\<dots> = nat (e - cur)" using assms by (simp add: py_slice_length)
  finally show ?thesis using assms by (simp add: chunk_ok_def loop_chunk_def)
qed

lemma split_loop_chunks_ok:
  assumes cs: "1 \<le> chunk_size cfg"
    and res: "split_loop cfg t meta 0 0 [] = Some out"
  shows "\<forall>i < length out. chunk_ok t (out ! i) i"
proof -
  let ?I = "\<lambda>(cur::int) idx chunks. idx = int (length chunks) \<and> (\<forall>i < length chunks. chunk_ok t (chunks ! i) i)"
  have "\<exists>out cur' idx'. split_loop cfg t meta 0 0 [] = Some out \<and> int (length t) \<le> cur' \<and> ?I cur' idx' out"
  proof (rule split_loop_rule [of cfg ?I t meta 0 0 "[]", OF cs])
    fix cur idx chunks
    assume I: "?I cur idx chunks" and c: "0 \<le> cur" "cur < int (length t)"
    have e: "cur < window_end cfg t cur" "window_end cfg t cur \<le> int (length t)"
      using window_end_bounds [OF cs c] by simp_all
    have "chunk_ok t (loop_chunk t meta cur (window_end cfg t cur) (int (length chunks))) (length chunks)"
      using loop_chunk_ok [OF c(1) e] .
    with I show "(keeps cfg t cur (window_end cfg t cur) idx \<longrightarrow>
            ?I (next_pos cfg cur (window_end cfg t cur)) (idx + 1)
              (chunks @ [loop_chunk t meta cur (window_end cfg t cur) idx])) \<and>
         (\<not> keeps cfg t cur (window_end cfg t cur) idx \<longrightarrow>
            ?I (next_pos cfg cur (window_end cfg t cur)) idx chunks)"
      by (auto simp: nth_append less_Suc_eq)
  qed simp_all
  with res show ?thesis by auto
qed

lemma split_text_chunk_ok:
  assumes "1 \<le> chunk_size cfg" and "split_text cfg text0 meta = Some chunks" and "i < length chunks"
  shows "chunk_ok (strip text0) (chunks ! i) i"
proof (cases "text0 = [] \<or> strip text0 = []")
  case True
  with assms show ?thesis by (simp add: split_text_def)
next
  case ne: False
  show ?thesis
  proof (cases "int (length (strip text0)) \<le> chunk_size cfg")
    case True
    with ne assms(2) have "chunks = [single_chunk (strip text0) meta]"
      by (simp add: split_text_def)
    moreover have "strip (strip text0) = strip text0"
      by (rule strip_idem)
    ultimately show ?thesis using assms(3) ne
      by (simp add: chunk_ok_def single_chunk_def py_slice_def slice_bound_def)
  next
    case False
    with ne assms(2) have "split_loop cfg (strip text0) meta 0 0 [] = Some chunks"
      by (simp add: split_text_def)
    from split_loop_chunks_ok [OF assms(1) this] assms(3) show ?thesis by simp
  qed
qed

text \<open>
  C6, as the code has it. For \<open>chunk_size \<ge> 1\<close>, the chunk at position \<open>i\<close> of the
  returned list has \<open>chunk_index = i\<close> (so the indices count up by one from zero) and
  \<open>start_char < end_char\<close>; its text is the trimmed slice between the two offsets, and
  \<open>char_count\<close> is the length of that trimmed text, which is at most
  \<open>end_char - start_char\<close>.
\<close>

theorem split_text_chunk_invariant:
  assumes "1 \<le> chunk_size cfg" and "split_text cfg text0 meta = Some chunks" and "i < length chunks"
  shows "chunk_index (chunks ! i) = int i
       \<and> start_char (chunks ! i) < end_char (chunks ! i)
       \<and> char_count (chunks ! i) = int (length (chunk_text (chunks ! i)))
       \<and> chunk_text (chunks ! i)
           = strip (py_slice (strip text0) (start_char (chunks ! i)) (end_char (chunks ! i)))
       \<and> char_count (chunks ! i) \<le> end_char (chunks ! i) - start_char (chunks ! i)"
  using split_text_chunk_ok [OF assms] unfolding chunk_ok_def .

theorem split_text_chunk_invariant_witness:
  "1 \<le> chunk_size \<lparr>chunk_size = 10, chunk_overlap = 2, min_chunk_size = 5\<rparr>
   \<and> split_text \<lparr>chunk_size = 10, chunk_overlap = 2, min_chunk_size = 5\<rparr>
        ''aaaaaaaa. bbbbbbbbbbbb'' None
       = Some [\<lparr>chunk_text = ''aaaaaaaa.'', chunk_index = 0, start_char = 0, end_char = 10,
                 char_count = 9, metadata = None\<rparr>,
               \<lparr>chunk_text = ''. bbbbbbbb'', chunk_index = 1, start_char = 8, end_char = 18,
                 char_count = 10, metadata = None\<rparr>,
               \<lparr>chunk_text = ''bbbbbb'', chunk_index = 2, start_char = 16, end_char = 22,
                 char_count = 6, metadata = None\<rparr>]
   \<and> chunk_text \<lparr>chunk_text = ''. bbbbbbbb'', chunk_index = 1, start_char = 8, end_char = 18,
                 char_count = 10, metadata = None\<rparr>
       = strip (py_slice (strip ''aaaaaaaa. bbbbbbbbbbbb'') 8 18)"
proof -
  let ?cfg = "\<lparr>chunk_size = 10, chunk_overlap = 2, min_chunk_size = 5\<rparr>"
  let ?out = "[\<lparr>chunk_text = ''aaaaaaaa.'', chunk_index = 0, start_char = 0, end_char = 10,
                 char_count = 9, metadata = None\<rparr>,
               \<lparr>chunk_text = ''. bbbbbbbb'', chunk_index = 1, start_char = 8, end_char = 18,
                 char_count = 10, metadata = None\<rparr>,
               \<lparr>chunk_text = ''bbbbbb'', chunk_index = 2, start_char = 16, end_char = 22,
                 char_count = 6, metadata = None\<rparr>]"
  have h1: "1 \<le> chunk_size ?cfg" by simp
  have h2: "split_text ?cfg ''aaaaaaaa. bbbbbbbbbbbb'' None = Some ?out" by code_simp
  have h3: "(1::nat) < length ?out" by simp
  from split_text_chunk_invariant [OF h1 h2 h3] h1 h2 show ?thesis by simp
qed

text \<open>
  C6 as stated asks for \<open>char_count = end_char - start_char\<close>. A window that ends
  right after a sentence boundary ends in white space, which the trimming removes while the
  offsets stay those of the untrimmed window: here the first chunk spans ten characters and
  counts nine.
\<close>

theorem split_text_char_count_counterexample:
  "split_text \<lparr>chunk_size = 10, chunk_overlap = 0, min_chunk_size = 5\<rparr>
        ''aaaaaaaa. bbbbbbbbbbbb'' None
     = Some [\<lparr>chunk_text = ''aaaaaaaa.'', chunk_index = 0, start_char = 0, end_char = 10,
               char_count = 9, metadata = None\<rparr>,
             \<lparr>chunk_text = ''bbbbbbbbbb'', chunk_index = 1, start_char = 10, end_char = 20,
               char_count = 10, metadata = None\<rparr>]
   \<and> char_count \<lparr>chunk_text = ''aaaaaaaa.'', chunk_index = 0, start_char = 0, end_char = 10,
               char_count = 9, metadata = None\<rparr>
     \<noteq> end_char \<lparr>chunk_text = ''aaaaaaaa.'', chunk_index = 0, start_char = 0, end_char = 10,
               char_count = 9, metadata = None\<rparr>
       - start_char \<lparr>chunk_text = ''aaaaaaaa.'', chunk_index = 0, start_char = 0, end_char = 10,
               char_count = 9, metadata = None\<rparr>"
proof
  show "split_text \<lparr>chunk_size = 10, chunk_overlap = 0, min_chunk_size = 5\<rparr>
        ''aaaaaaaa. bbbbbbbbbbbb'' None
     = Some [\<lparr>chunk_text = ''aaaaaaaa.'', chunk_index = 0, start_char = 0, end_char = 10,
               char_count = 9, metadata = None\<rparr>,
             \<lparr>chunk_text = ''bbbbbbbbbb'', chunk_index = 1, start_char = 10, end_char = 20,
               char_count = 10, metadata = None\<rparr>]"
    by code_simp
qed simp

subsection \<open>Overlap of consecutive chunks\<close>

lemma dropped_between_iff:
  "dropped_between cfg t c c' =
     (\<exists>p. start_char c < p \<and> p < start_char c' \<and> start_char c' \<le> window_end cfg t p
          \<and> int (length (strip (py_slice t p (window_end cfg t p)))) < min_chunk_size cfg)"
  unfolding dropped_between_def by (simp add: Bex_def) (metis add1_zle_eq zle_diff1_eq)

lemma split_loop_overlap:
  assumes cs: "1 \<le> chunk_size cfg"
    and res: "split_loop cfg t meta 0 0 [] = Some out"
  shows "\<forall>i. Suc i < length out \<longrightarrow>
           start_char (out ! i) < start_char (out ! Suc i)
           \<and> (start_char (out ! Suc i) \<le> end_char (out ! i)
               \<or> dropped_between cfg t (out ! i) (out ! Suc i))"
proof -
  let ?pair = "\<lambda>c c'. start_char c < start_char c'
       \<and> (start_char c' \<le> end_char c \<or> dropped_between cfg t c c')"
  let ?I = "\<lambda>(cur::int) idx chunks. idx = int (length chunks)
      \<and> (chunks \<noteq> [] \<longrightarrow> start_char (last chunks) < cur
            \<and> (cur \<le> end_char (last chunks)
                \<or> (\<exists>p. start_char (last chunks) < p \<and> p < cur \<and> cur \<le> window_end cfg t p
                     \<and> int (length (strip (py_slice t p (window_end cfg t p)))) < min_chunk_size cfg)))
      \<and> (\<forall>i. Suc i < length chunks \<longrightarrow> ?pair (chunks ! i) (chunks ! Suc i))"
  have "\<exists>out cur' idx'. split_loop cfg t meta 0 0 [] = Some out \<and> int (length t) \<le> cur' \<and> ?I cur' idx' out"
  proof (rule split_loop_rule [of cfg ?I t meta 0 0 "[]", OF cs])
    fix cur idx chunks
    assume I: "?I cur idx chunks" and c: "0 \<le> cur" "cur < int (length t)"
    define e where "e = window_end cfg t cur"
    define n where "n = next_pos cfg cur e"
    define c' where "c' = loop_chunk t meta cur e idx"
    have e: "cur < e" using window_end_bounds [OF cs c] by (simp add: e_def)
    have n: "cur < n" "n \<le> e" using next_pos_bounds [OF e, of cfg] by (simp_all add: n_def)
    have c'f: "start_char c' = cur" "end_char c' = e" by (simp_all add: c'_def loop_chunk_def)
    from I have idx: "idx = int (length chunks)" by simp
    from I have pairs: "\<forall>i. Suc i < length chunks \<longrightarrow> ?pair (chunks ! i) (chunks ! Suc i)" by simp
    have kept: "?I n (idx + 1) (chunks @ [c'])"
    proof (intro conjI allI impI)
      show "idx + 1 = int (length (chunks @ [c']))" using idx by simp
      show "start_char (last (chunks @ [c'])) < n" using n c'f by simp
      show "n \<le> end_char (last (chunks @ [c']))
          \<or> (\<exists>p. start_char (last (chunks @ [c'])) < p \<and> p < n \<and> n \<le> window_end cfg t p
                \<and> int (length (strip (py_slice t p (window_end cfg t p)))) < min_chunk_size cfg)"
        using n c'f by simp
    next
      fix i assume i: "Suc i < length (chunks @ [c'])"
      show "start_char ((chunks @ [c']) ! i) < start_char ((chunks @ [c']) ! Suc i)"
      proof (cases "Suc i < length chunks")
        case True
        with pairs show ?thesis by (simp add: nth_append)
      next
        case False
        with i have il: "Suc i = length chunks" by simp
        then have ne: "chunks \<noteq> []" by auto
        have "i = length chunks - 1" using il by simp
        then have "chunks ! i = last chunks" using ne by (simp add: last_conv_nth)
        with I ne il c'f show ?thesis by (simp add: nth_append)
      qed
      show "start_char ((chunks @ [c']) ! Suc i) \<le> end_char ((chunks @ [c']) ! i)
          \<or> dropped_between cfg t ((chunks @ [c']) ! i) ((chunks @ [c']) ! Suc i)"
      proof (cases "Suc i < length chunks")
        case True
        with pairs show ?thesis by (simp add: nth_append)
      next
        case False
        with i have il: "Suc i = length chunks" by simp
        then have ne: "chunks \<noteq> []" by auto
        have "i = length chunks - 1" using il by simp
        then have li: "chunks ! i = last chunks" using ne by (simp add: last_conv_nth)
        have sel: "(chunks @ [c']) ! i = last chunks" "(chunks @ [c']) ! Suc i = c'"
          using il li by (simp_all add: nth_append)
        from I ne have "cur \<le> end_char (last chunks)
                \<or> (\<exists>p. start_char (last chunks) < p \<and> p < cur \<and> cur \<le> window_end cfg t p
                     \<and> int (length (strip (py_slice t p (window_end cfg t p)))) < min_chunk_size cfg)"
          by simp
        then show ?thesis unfolding sel dropped_between_iff c'f by simp
      qed
    qed
    have dropped: "?I n idx chunks" if nk: "\<not> keeps cfg t cur e idx"
    proof (intro conjI allI impI)
      show "idx = int (length chunks)" by (rule idx)
      from nk have small: "int (length (strip (py_slice t cur e))) < min_chunk_size cfg"
        by (simp add: keeps_def)
      { assume ne: "chunks \<noteq> []"
        with I have lt: "start_char (last chunks) < cur" by simp
        then show "start_char (last chunks) < n" using n by simp
        have "start_char (last chunks) < cur \<and> cur < n \<and> n \<le> window_end cfg t cur
            \<and> int (length (strip (py_slice t cur (window_end cfg t cur)))) < min_chunk_size cfg"
          using lt n small by (simp add: e_def)
        then show "n \<le> end_char (last chunks)
          \<or> (\<exists>p. start_char (last chunks) < p \<and> p < n \<and> n \<le> window_end cfg t p
                \<and> int (length (strip (py_slice t p (window_end cfg t p)))) < min_chunk_size cfg)"
          by blast }
    next
      fix i assume "Suc i < length chunks"
      with pairs show "start_char (chunks ! i) < start_char (chunks ! Suc i)" by simp
    next
      fix i assume "Suc i < length chunks"
      with pairs show "start_char (chunks ! Suc i) \<le> end_char (chunks ! i)
          \<or> dropped_between cfg t (chunks ! i) (chunks ! Suc i)" by simp
    qed
    show "(keeps cfg t cur (window_end cfg t cur) idx \<longrightarrow>
            ?I (next_pos cfg cur (window_end cfg t cur)) (idx + 1)
              (chunks @ [loop_chunk t meta cur (window_end cfg t cur) idx])) \<and>
         (\<not> keeps cfg t cur (window_end cfg t cur) idx \<longrightarrow>
            ?I (next_pos cfg cur (window_end cfg t cur)) idx chunks)"
      using kept dropped unfolding e_def n_def c'_def by blast
  qed simp_all
  with res show ?thesis by auto
qed

text \<open>
  C7, as the code has it. For \<open>chunk_size \<ge> 1\<close>, every chunk after the first starts
  after the start of its predecessor, and at or before the end of its predecessor unless a
  window scanned between the two was dropped as shorter than \<open>min_chunk_size\<close>; then
  it starts at or before the end of such a dropped window. With \<open>min_chunk_size \<le> 0\<close>
  nothing is dropped and \<open>start_char[i+1] \<le> end_char[i]\<close> holds for every pair.
\<close>

theorem split_text_overlap:
  assumes "1 \<le> chunk_size cfg" and "split_text cfg text0 meta = Some chunks"
    and "Suc i < length chunks"
  shows "start_char (chunks ! i) < start_char (chunks ! Suc i)
       \<and> (start_char (chunks ! Suc i) \<le> end_char (chunks ! i)
           \<or> dropped_between cfg (strip text0) (chunks ! i) (chunks ! Suc i))
       \<and> (min_chunk_size cfg \<le> 0 \<longrightarrow> start_char (chunks ! Suc i) \<le> end_char (chunks ! i))"
proof -
  have multi: "split_loop cfg (strip text0) meta 0 0 [] = Some chunks"
  proof (cases "text0 = [] \<or> strip text0 = [] \<or> int (length (strip text0)) \<le> chunk_size cfg")
    case True
    with assms(2) have "length chunks \<le> 1" by (auto simp: split_text_def split: if_splits)
    with assms(3) show ?thesis by simp
  next
    case False
    with assms(2) show ?thesis by (simp add: split_text_def)
  qed
  from split_loop_overlap [OF assms(1) multi] assms(3)
  have p: "start_char (chunks ! i) < start_char (chunks ! Suc i)"
    "start_char (chunks ! Suc i) \<le> end_char (chunks ! i)
       \<or> dropped_between cfg (strip text0) (chunks ! i) (chunks ! Suc i)"
    by simp_all
  have "\<not> dropped_between cfg (strip text0) (chunks ! i) (chunks ! Suc i)"
    if "min_chunk_size cfg \<le> 0"
    using that unfolding dropped_between_iff by auto
  with p show ?thesis by blast
qed

theorem split_text_overlap_witness:
  "1 \<le> chunk_size \<lparr>chunk_size = 10, chunk_overlap = 2, min_chunk_size = 5\<rparr>
   \<and> split_text \<lparr>chunk_size = 10, chunk_overlap = 2, min_chunk_size = 5\<rparr>
        ''aaaaaaaa. bbbbbbbbbbbb'' None
       = Some [\<lparr>chunk_text = ''aaaaaaaa.'', chunk_index = 0, start_char = 0, end_char = 10,
                 char_count = 9, metadata = None\<rparr>,
               \<lparr>chunk_text = ''. bbbbbbbb'', chunk_index = 1, start_char = 8, end_char = 18,
                 char_count = 10, metadata = None\<rparr>,
               \<lparr>chunk_text = ''bbbbbb'', chunk_index = 2, start_char = 16, end_char = 22,
                 char_count = 6, metadata = None\<rparr>]
   \<and> \<not> dropped_between \<lparr>chunk_size = 10, chunk_overlap = 2, min_chunk_size = 5\<rparr>
          (strip ''aaaaaaaa. bbbbbbbbbbbb'')
          \<lparr>chunk_text = ''aaaaaaaa.'', chunk_index = 0, start_char = 0, end_char = 10,
                 char_count = 9, metadata = None\<rparr>
          \<lparr>chunk_text = ''. bbbbbbbb'', chunk_index = 1, start_char = 8, end_char = 18,
                 char_count = 10, metadata = None\<rparr>
   \<and> start_char \<lparr>chunk_text = ''. bbbbbbbb'', chunk_index = 1, start_char = 8, end_char = 18,
                 char_count = 10, metadata = None\<rparr>
       \<le> end_char \<lparr>chunk_text = ''aaaaaaaa.'', chunk_index = 0, start_char = 0, end_char = 10,
                 char_count = 9, metadata = None\<rparr>"
proof -
  let ?cfg = "\<lparr>chunk_size = 10, chunk_overlap = 2, min_chunk_size = 5\<rparr>"
  let ?c0 = "\<lparr>chunk_text = ''aaaaaaaa.'', chunk_index = 0, start_char = 0, end_char = 10,
                 char_count = 9, metadata = None\<rparr>"
  let ?c1 = "\<lparr>chunk_text = ''. bbbbbbbb'', chunk_index = 1, start_char = 8, end_char = 18,
                 char_count = 10, metadata = None\<rparr>"
  let ?c2 = "\<lparr>chunk_text = ''bbbbbb'', chunk_index = 2, start_char = 16, end_char = 22,
                 char_count = 6, metadata = None\<rparr>"
  have h1: "1 \<le> chunk_size ?cfg" by simp
  have h2: "split_text ?cfg ''aaaaaaaa. bbbbbbbbbbbb'' None = Some [?c0, ?c1, ?c2]" by code_simp
  have h3: "Suc 0 < length [?c0, ?c1, ?c2]" by simp
  have nd: "\<not> dropped_between ?cfg (strip ''aaaaaaaa. bbbbbbbbbbbb'') ?c0 ?c1" by code_simp
  from split_text_overlap [OF h1 h2 h3] nd h1 h2 show ?thesis by simp
qed

text \<open>
  C7 as stated fails when the scan drops a window between two chunks: the ten blanks in
  the middle of this text are a window of their own, its trimmed text is empty, and the
  next chunk starts ten characters after the end of the previous one.
\<close>

theorem split_text_overlap_counterexample:
  "split_text \<lparr>chunk_size = 10, chunk_overlap = 0, min_chunk_size = 5\<rparr>
      ''aaaaaaaaaa          bbbbbbbbbb'' None
     = Some [\<lparr>chunk_text = ''aaaaaaaaaa'', chunk_index = 0, start_char = 0, end_char = 10,
               char_count = 10, metadata = None\<rparr>,
             \<lparr>chunk_text = ''bbbbbbbbbb'', chunk_index = 1, start_char = 20, end_char = 30,
               char_count = 10, metadata = None\<rparr>]
   \<and> \<not> start_char \<lparr>chunk_text = ''bbbbbbbbbb'', chunk_index = 1, start_char = 20, end_char = 30,
               char_count = 10, metadata = None\<rparr>
        \<le> end_char \<lparr>chunk_text = ''aaaaaaaaaa'', chunk_index = 0, start_char = 0, end_char = 10,
               char_count = 10, metadata = None\<rparr>"
proof
  show "split_text \<lparr>chunk_size = 10, chunk_overlap = 0, min_chunk_size = 5\<rparr>
      ''aaaaaaaaaa          bbbbbbbbbb'' None
     = Some [\<lparr>chunk_text = ''aaaaaaaaaa'', chunk_index = 0, start_char = 0, end_char = 10,
               char_count = 10, metadata = None\<rparr>,
             \<lparr>chunk_text = ''bbbbbbbbbb'', chunk_index = 1, start_char = 20, end_char = 30,
               char_count = 10, metadata = None\<rparr>]"
    by code_simp
qed simp

subsection \<open>Metadata attached to the chunks\<close>







section \<open>Properties of the LRU cache\<close>


lemma dict_set_map_of: "map_of (dict_set k v d) = (map_of d)(k \<mapsto> v)"
  by (induction d) (auto simp: fun_eq_iff)


















section \<open>Properties of the vector store and of delete\_document\<close>

subsection \<open>The collection without faults, and with a failing look-up\<close>

lemma next_fault_nil: "faults c = [] \<Longrightarrow> next_fault c = (False, c)"
  by (simp add: next_fault_def)

lemma next_fault_cons: "faults c = f # fs \<Longrightarrow> next_fault c = (f, c\<lparr>faults := fs\<rparr>)"
  by (simp add: next_fault_def)

lemma count_ok:
  "faults c = [] \<Longrightarrow> count c = (int (length (records c)), c)"
  "faults c = False # fs \<Longrightarrow> count c = (int (length (records c)), c\<lparr>faults := fs\<rparr>)"
  by (simp_all add: count_def coll_count_def next_fault_def)

lemma count_masked:
  "faults c = True # fs \<Longrightarrow> count c = (0, c\<lparr>faults := fs\<rparr>)"
  by (simp add: count_def coll_count_def next_fault_def)


lemma query_fails:
  "faults c = True # fs \<Longrightarrow> coll_query c field val n = (Inl UpstreamError, c\<lparr>faults := fs\<rparr>)"
  by (simp add: coll_query_def next_fault_def)

lemma delete_ok:
  "faults c = [] \<Longrightarrow>
     chroma_delete c field val
       = (Inr (), c\<lparr>records := filter (\<lambda>r. \<not> matches field val r) (records c)\<rparr>)"
  by (simp add: chroma_delete_def coll_delete_def next_fault_def)

lemma no_match_filter:
  "\<not> (\<exists>r \<in> set rs. P r) \<Longrightarrow> filter (\<lambda>r. \<not> P r) rs = rs \<and> filter P rs = []"
  by (induction rs) auto





lemma delete_document_unfold:
  assumes "given document_id \<or> given file_path"
  shows "delete_document c document_id file_path =
     (case count c of
        (count_before, c1) \<Rightarrow>
          (case delete_checked c1 (fst (selector document_id file_path))
                  (snd (selector document_id file_path))
                  (not_found_message document_id file_path) count_before of
             (Inl e, c2) \<Rightarrow> (Inl e, c2)
           | (Inr u, c2) \<Rightarrow>
               (case count c2 of
                  (count_after, c3) \<Rightarrow>
                    (Inr \<lparr> success = True, deleted_count = count_before - count_after,
                           message = ''Document deleted from index'' \<rparr>, c3))))"
  using assms by (auto simp: delete_document_def selector_def not_found_message_def)


subsection \<open>Not found, and the deleted count\<close>



subsection \<open>The selectors\<close>

lemma delete_fallback_errors:
  "fst (delete_fallback c field val msg n) = Inl e \<Longrightarrow> e = ValueError msg \<or> e = UpstreamError"
  by (auto simp: delete_fallback_def chroma_delete_def coll_delete_def count_def coll_count_def
      next_fault_def split: list.splits bool.splits if_splits)

lemma delete_checked_errors:
  "fst (delete_checked c field val msg n) = Inl e \<Longrightarrow> e = ValueError msg \<or> e = UpstreamError"
  by (auto simp: delete_checked_def coll_query_def chroma_delete_def coll_delete_def next_fault_def
      split: list.splits bool.splits if_splits dest: delete_fallback_errors)

text \<open>
  C4, as the code has it. \<open>delete_document\<close> raises the \<open>ValueError\<close> "Must specify
  document\_id or file\_path" when neither selector is given (each is absent or empty),
  and only then; when the document id is given the file path is ignored, so giving both
  is the same call as giving the document id alone.
\<close>

theorem delete_document_selectors:
  "(\<not> given document_id \<and> \<not> given file_path \<longrightarrow>
       delete_document c document_id file_path
         = (Inl (ValueError ''Must specify document_id or file_path''), c))
   \<and> (given document_id' \<or> given file_path' \<longrightarrow>
       fst (delete_document c document_id' file_path')
         \<noteq> Inl (ValueError ''Must specify document_id or file_path''))
   \<and> (given document_id' \<longrightarrow>
       delete_document c document_id' file_path' = delete_document c document_id' None)"
proof (intro conjI impI)
  show "delete_document c document_id file_path
         = (Inl (ValueError ''Must specify document_id or file_path''), c)"
    if "\<not> given document_id \<and> \<not> given file_path"
    using that by (simp add: delete_document_def)
  show "delete_document c document_id' file_path' = delete_document c document_id' None"
    if "given document_id'"
    using that by (simp add: delete_document_def)
  show "fst (delete_document c document_id' file_path')
         \<noteq> Inl (ValueError ''Must specify document_id or file_path'')"
    if g: "given document_id' \<or> given file_path'"
  proof
    assume a: "fst (delete_document c document_id' file_path')
         = Inl (ValueError ''Must specify document_id or file_path'')"
    obtain n c1 where c1: "count c = (n, c1)" by (cases "count c")
    let ?dc = "delete_checked c1 (fst (selector document_id' file_path'))
                  (snd (selector document_id' file_path'))
                  (not_found_message document_id' file_path') n"
    obtain r c2 where dc: "?dc = (r, c2)" by (cases ?dc)
    have "r = Inl (ValueError ''Must specify document_id or file_path'')"
      using a by (cases r) (simp_all add: delete_document_unfold [OF g] c1 dc split: prod.splits)
    then have "fst ?dc = Inl (ValueError ''Must specify document_id or file_path'')"
      by (simp add: dc)
    from delete_checked_errors [OF this]
    show False by (auto simp: not_found_message_def split: if_splits)
  qed
qed

theorem delete_document_selectors_witness:
  "\<not> given None \<and> \<not> given (Some '''')
   \<and> delete_document \<lparr>records = [], faults = []\<rparr> None (Some '''')
       = (Inl (ValueError ''Must specify document_id or file_path''), \<lparr>records = [], faults = []\<rparr>)
   \<and> given (Some ''d1'')
   \<and> fst (delete_document \<lparr>records = [], faults = []\<rparr> (Some ''d1'') (Some ''q''))
       \<noteq> Inl (ValueError ''Must specify document_id or file_path'')
   \<and> delete_document \<lparr>records = [], faults = []\<rparr> (Some ''d1'') (Some ''q'')
       = delete_document \<lparr>records = [], faults = []\<rparr> (Some ''d1'') None"
proof -
  let ?c = "\<lparr>records = [], faults = []\<rparr>"
  note t = delete_document_selectors [of None "Some ''''" ?c "Some ''d1''" "Some ''q''"]
  have h1: "\<not> given None \<and> \<not> given (Some '''')" by simp
  have h2: "given (Some ''d1'')" by simp
  have h3: "given (Some ''d1'') \<or> given (Some ''q'')" by simp
  note a = t [THEN conjunct1, THEN mp, OF h1]
  note b = t [THEN conjunct2, THEN conjunct1, THEN mp, OF h3]
  note c = t [THEN conjunct2, THEN conjunct2, THEN mp, OF h2]
  show ?thesis using h1 h2 a b c by (intro conjI) simp_all
qed

text \<open>
  C4 as stated also asks for an error when both selectors are given. The guard of line 205
  only tests that both are missing: with both given, the call deletes by document id and
  succeeds.
\<close>

theorem delete_document_both_selectors_counterexample:
  "given (Some ''d1'') \<and> given (Some ''q'')
   \<and> fst (delete_document
        \<lparr>records = [\<lparr>rec_id = ''d1_chunk_0'', rec_document = ''x'',
                  rec_metadata = [(''document_id'', PStr ''d1''), (''file_path'', PStr ''p'')],
                  rec_embedding = []\<rparr>,
                \<lparr>rec_id = ''d2_chunk_0'', rec_document = ''y'',
                  rec_metadata = [(''document_id'', PStr ''d2''), (''file_path'', PStr ''q'')],
                  rec_embedding = []\<rparr>], faults = []\<rparr> (Some ''d1'') (Some ''q''))
       = Inr \<lparr>success = True, deleted_count = 1, message = ''Document deleted from index''\<rparr>"
  by (simp add: delete_document_def count_def coll_count_def next_fault_def delete_checked_def
      coll_query_def chroma_delete_def coll_delete_def matches_def)

subsection \<open>count hides a failure of the collection\<close>

text \<open>
  C9. \<open>count\<close> never raises: when the count of the collection raises, \<open>count\<close>
  returns 0, which is also what it returns for an empty collection that answers. The
  fallback of \<open>delete_document\<close> compares such values: when the first count and the
  look-up both fail on a collection that is not empty and holds no matching record, the
  count before is 0, the count after the no-op delete is not, and the call reports
  success with a negative \<open>deleted_count\<close> instead of raising that nothing was found.
\<close>

theorem count_masks_failure:
  "(faults c = True # fs \<longrightarrow> count c = (0, c\<lparr>faults := fs\<rparr>))
   \<and> count \<lparr>records = [], faults = []\<rparr> = (0, \<lparr>records = [], faults = []\<rparr>)
   \<and> (faults c = [True, True] \<and> records c \<noteq> [] \<and> given document_id
        \<and> \<not> (\<exists>r \<in> set (records c). matches ''document_id'' (the document_id) r) \<longrightarrow>
        delete_document c document_id file_path
          = (Inr \<lparr>success = True, deleted_count = - int (length (records c)),
                   message = ''Document deleted from index''\<rparr>, c\<lparr>faults := []\<rparr>))"
proof (intro conjI impI)
  show "count c = (0, c\<lparr>faults := fs\<rparr>)" if "faults c = True # fs"
    using that by (rule count_masked)
  show "count \<lparr>records = [], faults = []\<rparr> = (0, \<lparr>records = [], faults = []\<rparr>)"
    by (simp add: count_ok(1))
  show "delete_document c document_id file_path
          = (Inr \<lparr>success = True, deleted_count = - int (length (records c)),
                   message = ''Document deleted from index''\<rparr>, c\<lparr>faults := []\<rparr>)"
    if h: "faults c = [True, True] \<and> records c \<noteq> [] \<and> given document_id
        \<and> \<not> (\<exists>r \<in> set (records c). matches ''document_id'' (the document_id) r)"
  proof -
    from h have f: "faults c = [True, True]" and ne: "records c \<noteq> []" and g: "given document_id"
      and nm: "\<not> (\<exists>r \<in> set (records c). matches ''document_id'' (the document_id) r)"
      by simp_all
    have c0: "count c = (0, c\<lparr>faults := [True]\<rparr>)" using f by (simp add: count_masked)
    have q: "coll_query (c\<lparr>faults := [True]\<rparr>) ''document_id'' (the document_id) 1
        = (Inl UpstreamError, c\<lparr>faults := []\<rparr>)"
      by (simp add: query_fails)
    have keep: "filter (\<lambda>r. \<not> matches ''document_id'' (the document_id) r) (records c) = records c"
      using no_match_filter [OF nm] by simp
    have d: "chroma_delete (c\<lparr>faults := []\<rparr>) ''document_id'' (the document_id)
        = (Inr (), c\<lparr>faults := []\<rparr>)"
      by (simp add: delete_ok keep)
    have cn: "count (c\<lparr>faults := []\<rparr>) = (int (length (records c)), c\<lparr>faults := []\<rparr>)"
      by (simp add: count_ok(1))
    have fb: "\<And>msg. delete_fallback (c\<lparr>faults := []\<rparr>) ''document_id'' (the document_id) msg 0
        = (Inr (), c\<lparr>faults := []\<rparr>)"
      using ne unfolding delete_fallback_def d by (simp add: cn)
    have dc: "\<And>msg. delete_checked (c\<lparr>faults := [True]\<rparr>) ''document_id'' (the document_id) msg 0
        = (Inr (), c\<lparr>faults := []\<rparr>)"
      unfolding delete_checked_def q by (simp add: fb)
    show ?thesis using g by (simp add: delete_document_def c0 dc cn)
  qed
qed

theorem count_masks_failure_witness:
  "faults \<lparr>records = [\<lparr>rec_id = ''d1_chunk_0'', rec_document = ''x'',
                  rec_metadata = [(''document_id'', PStr ''d1''), (''file_path'', PStr ''p'')],
                  rec_embedding = []\<rparr>], faults = [True, True]\<rparr> = [True, True]
   \<and> count \<lparr>records = [\<lparr>rec_id = ''d1_chunk_0'', rec_document = ''x'',
                  rec_metadata = [(''document_id'', PStr ''d1''), (''file_path'', PStr ''p'')],
                  rec_embedding = []\<rparr>], faults = [True, True]\<rparr>
       = (0, \<lparr>records = [\<lparr>rec_id = ''d1_chunk_0'', rec_document = ''x'',
                  rec_metadata = [(''document_id'', PStr ''d1''), (''file_path'', PStr ''p'')],
                  rec_embedding = []\<rparr>], faults = [True]\<rparr>)
   \<and> given (Some ''zz'')
   \<and> fst (delete_document \<lparr>records = [\<lparr>rec_id = ''d1_chunk_0'', rec_document = ''x'',
                  rec_metadata = [(''document_id'', PStr ''d1''), (''file_path'', PStr ''p'')],
                  rec_embedding = []\<rparr>], faults = [True, True]\<rparr> (Some ''zz'') None)
       = Inr \<lparr>success = True, deleted_count = - 1, message = ''Document deleted from index''\<rparr>"
proof -
  let ?r1 = "\<lparr>rec_id = ''d1_chunk_0'', rec_document = ''x'',
                  rec_metadata = [(''document_id'', PStr ''d1''), (''file_path'', PStr ''p'')],
                  rec_embedding = []\<rparr>"
  let ?c = "\<lparr>records = [?r1], faults = [True, True]\<rparr>"
  note t = count_masks_failure [of ?c "[True]" "Some ''zz''" None]
  have h1: "faults ?c = True # [True]" by simp
  have h2: "faults ?c = [True, True] \<and> records ?c \<noteq> [] \<and> given (Some ''zz'')
        \<and> \<not> (\<exists>r \<in> set (records ?c). matches ''document_id'' (the (Some ''zz'')) r)"
    by (simp add: matches_def)
  note a = t [THEN conjunct1, THEN mp, OF h1]
  note b = t [THEN conjunct2, THEN conjunct2, THEN mp, OF h2]
  show ?thesis using a b by (intro conjI) simp_all
qed

section \<open>Properties of index\_document\<close>

subsection \<open>Decimal text of a number, and the ids of the chunks\<close>

lemma str_nat_value: "foldl (\<lambda>a ch. 10 * a + (of_char ch - 48)) 0 (str_nat n) = n"
proof (induction n rule: str_nat.induct)
  case (1 n)
  show ?case
  proof (cases "n < 10")
    case True
    then have "str_nat n = [char_of (48 + n)]" by (subst str_nat.simps) simp
    moreover have "(of_char (char_of (48 + n)) :: nat) = 48 + n" using True by (simp add: of_char_of)
    ultimately show ?thesis by simp
  next
    case False
    then have s: "str_nat n = str_nat (n div 10) @ [char_of (48 + n mod 10)]"
      by (subst str_nat.simps) simp
    have "(of_char (char_of (48 + n mod 10)) :: nat) = 48 + n mod 10"
      by (simp add: of_char_of)
    with "1.IH" [OF False] show ?thesis by (simp add: s)
  qed
qed

lemma str_nat_inj:
  assumes "str_nat m = str_nat n"
  shows "m = n"
proof -
  have "m = foldl (\<lambda>a ch. 10 * a + (of_char ch - 48)) 0 (str_nat m)"
    by (rule str_nat_value [symmetric])
  also have "\<dots> = foldl (\<lambda>a ch. 10 * a + (of_char ch - 48)) 0 (str_nat n)"
    by (simp only: assms)
  also have "\<dots> = n" by (rule str_nat_value)
  finally show ?thesis .
qed

lemma py_str_nat: "py_str (int i) = str_nat i"
  by (simp add: py_str_def)

lemma chunk_id_inj:
  assumes "chunk_id d i = chunk_id d j"
  shows "i = j"
proof -
  from assms have "str_nat i = str_nat j" by (simp add: chunk_id_def py_str_nat)
  then show ?thesis by (rule str_nat_inj)
qed

lemma chunk_ids_distinct: "distinct (map (chunk_id d) [0..<n])"
proof -
  have "inj_on (chunk_id d) (set [0..<n])"
    by (rule inj_onI) (rule chunk_id_inj)
  then show ?thesis by (simp add: distinct_map)
qed

lemma copy_key_other: "k \<noteq> k' \<Longrightarrow> map_of (copy_key k src dst) k' = map_of dst k'"
  by (simp add: copy_key_def dict_set_map_of split: option.splits)

lemma record_metadata_chunk_index:
  "map_of (record_metadata document_id d ch) ''chunk_index'' = Some (PInt (chunk_index ch))"
  by (simp add: record_metadata_def Let_def copy_key_other)

lemma encode_chunks_fst:
  "encode_chunks encode chunks = Inr cwe \<Longrightarrow> map fst cwe = chunks"
  by (auto simp: encode_chunks_def map_fst_zip_take min_def split: if_splits sum.splits)

lemma next_fault_records: "next_fault c = (f, c1) \<Longrightarrow> records c1 = records c"
  by (cases "faults c") (auto simp: next_fault_def)

lemma chroma_delete_success:
  assumes "chroma_delete c field val = (Inr u, c1)"
  shows "records c1 = filter (\<lambda>r. \<not> matches field val r) (records c)"
proof -
  obtain f c0 where nf: "next_fault c = (f, c0)" by (cases "next_fault c")
  with assms have "\<not> f" by (cases f) (simp_all add: chroma_delete_def coll_delete_def)
  with assms nf have "c1 = c0\<lparr>records := filter (\<lambda>r. \<not> matches field val r) (records c0)\<rparr>"
    by (simp add: chroma_delete_def coll_delete_def)
  with next_fault_records [OF nf] show ?thesis by simp
qed

lemma coll_add_success:
  assumes "coll_add c new = (Inr u, c1)"
  shows "records c1 = records c @ new"
proof -
  obtain f c0 where nf: "next_fault c = (f, c0)" by (cases "next_fault c")
  with assms have "\<not> f" by (cases f) (simp_all add: coll_add_def)
  with assms nf have "c1 = c0\<lparr>records := records c0 @ new\<rparr>"
    by (simp add: coll_add_def)
  with next_fault_records [OF nf] show ?thesis by simp
qed

lemma add_documents_success:
  assumes "add_documents c documents metadatas embeddings ids = (Inr a, c1)"
    and "documents \<noteq> []"
  shows "records c1 = records c
      @ map (\<lambda>(i, d, m, e). \<lparr>rec_id = i, rec_document = d, rec_metadata = m, rec_embedding = e\<rparr>)
          (zip ids (zip documents (zip metadatas embeddings)))"
proof -
  let ?new = "map (\<lambda>(i, d, m, e). \<lparr>rec_id = i, rec_document = d, rec_metadata = m, rec_embedding = e\<rparr>)
          (zip ids (zip documents (zip metadatas embeddings)))"
  obtain r c0 where ca: "coll_add c ?new = (r, c0)" by (cases "coll_add c ?new")
  from assms ca have "r = Inr () \<and> c0 = c1"
    by (cases r) (auto simp: add_documents_def split: if_splits)
  with ca coll_add_success [of c ?new "()" c1] show ?thesis by simp
qed

lemma store_chunks_records:
  assumes res: "store_chunks document_id d cwe c file_path overwrite = (Inr result, c')"
    and ne: "cwe \<noteq> []"
  shows "records c' =
           (if overwrite then filter (\<lambda>r. \<not> matches ''file_path'' file_path r) (records c)
            else records c)
           @ map (\<lambda>(i, ce). \<lparr>rec_id = chunk_id document_id i, rec_document = chunk_text (fst ce),
                              rec_metadata = record_metadata document_id d (fst ce),
                              rec_embedding = snd ce\<rparr>) (enumerate 0 cwe)"
proof -
  define ids where "ids = map (\<lambda>ie. chunk_id document_id (fst ie)) (enumerate 0 cwe)"
  define docs where "docs = map (\<lambda>ce. chunk_text (fst ce)) cwe"
  define metas where "metas = map (\<lambda>ce. record_metadata document_id d (fst ce)) cwe"
  define embs where "embs = map snd cwe"
  define start where "start = (if overwrite then chroma_delete c ''file_path'' file_path
                               else (Inr (), c))"
  have new: "map (\<lambda>(i, d, m, e). \<lparr>rec_id = i, rec_document = d, rec_metadata = m, rec_embedding = e\<rparr>)
                (zip ids (zip docs (zip metas embs)))
           = map (\<lambda>(i, ce). \<lparr>rec_id = chunk_id document_id i, rec_document = chunk_text (fst ce),
                              rec_metadata = record_metadata document_id d (fst ce),
                              rec_embedding = snd ce\<rparr>) (enumerate 0 cwe)"
    unfolding ids_def docs_def metas_def embs_def
    by (rule nth_equalityI) (simp_all add: nth_enumerate_eq)
  have dne: "docs \<noteq> []" using ne by (simp add: docs_def)
  obtain r1 c1 where st: "start = (r1, c1)" by (cases start)
  obtain r2 c2 where add: "add_documents c1 docs metas embs ids = (r2, c2)"
    by (cases "add_documents c1 docs metas embs ids")
  have unf: "store_chunks document_id d cwe c file_path overwrite
      = (case r1 of Inl e \<Rightarrow> (Inl e, c1)
         | Inr u \<Rightarrow> (case r2 of Inl e \<Rightarrow> (Inl e, c2)
                      | Inr added \<Rightarrow>
                          (Inr \<lparr> indexed = True,
                     indexed_document_id = document_id,
                     chunks_count = int (length cwe),
                     indexed_file_path = file_path,
                     indexed_file_name = doc_file_name d,
                     indexed_message = ''Document successfully indexed: ''
                        @ py_str (int (length cwe)) @ '' chunks'' \<rparr>, c2)))"
    unfolding store_chunks_def Let_def
    unfolding ids_def [symmetric] docs_def [symmetric] metas_def [symmetric] embs_def [symmetric]
      start_def [symmetric]
    unfolding st
    by (cases r1) (simp_all add: add)
  from res have r1: "r1 = Inr ()" unfolding unf by (cases r1) simp_all
  from res obtain a where r2: "r2 = Inr a" and c2: "c2 = c'"
    unfolding unf r1 by (cases r2) simp_all
  have c1: "records c1 = (if overwrite
            then filter (\<lambda>r. \<not> matches ''file_path'' file_path r) (records c)
            else records c)"
  proof (cases overwrite)
    case True
    with st r1 have "chroma_delete c ''file_path'' file_path = (Inr (), c1)"
      by (simp add: start_def)
    from chroma_delete_success [OF this] True show ?thesis by simp
  next
    case False
    with st show ?thesis by (simp add: start_def)
  qed
  from add r2 have "add_documents c1 docs metas embs ids = (Inr a, c2)" by simp
  from add_documents_success [OF this dne]
  have "records c2 = records c1
      @ map (\<lambda>(i, d, m, e). \<lparr>rec_id = i, rec_document = d, rec_metadata = m, rec_embedding = e\<rparr>)
                (zip ids (zip docs (zip metas embs)))" .
  then show ?thesis by (simp only: new c1 c2)
qed

text \<open>
  C8. For \<open>chunk_size \<ge> 1\<close> and every call of \<open>index_document\<close> that succeeds, the
  records added to the collection are one per chunk, in order; the id of the record of a
  chunk is \<open>"{document_id}_chunk_{chunk_index}"\<close> with the chunk's own \<open>chunk_index\<close>,
  which is the position used to build the id and is also stored in its metadata; and the
  ids created by the call are pairwise distinct.
\<close>

theorem index_document_chunk_ids:
  assumes cs: "1 \<le> chunk_size cfg"
    and res: "index_document cfg file_exists processed encode document_id c file_path overwrite
                = Some (Inr result, c')"
  shows "\<exists>d chunks new.
           processed = Some d \<and> split_document cfg d = Some chunks
         \<and> records c' = (if overwrite
                          then filter (\<lambda>r. \<not> matches ''file_path'' file_path r) (records c)
                          else records c) @ new
         \<and> length new = length chunks
         \<and> (\<forall>i < length chunks.
                rec_id (new ! i) = document_id @ ''_chunk_'' @ py_str (chunk_index (chunks ! i))
              \<and> chunk_index (chunks ! i) = int i
              \<and> map_of (rec_metadata (new ! i)) ''chunk_index''
                   = Some (PInt (chunk_index (chunks ! i)))
              \<and> rec_document (new ! i) = chunk_text (chunks ! i))
         \<and> distinct (map rec_id new)"
proof -
  from res have ex: "file_exists" by (auto simp: index_document_def split: if_splits)
  from res ex obtain d where d: "processed = Some d"
    by (cases processed) (auto simp: index_document_def)
  from res ex d obtain chunks where ch: "split_document cfg d = Some chunks"
    by (cases "split_document cfg d") (auto simp: index_document_def)
  from res ex d ch have ne: "chunks \<noteq> []"
    by (auto simp: index_document_def split: if_splits)
  from res ex d ch ne obtain cwe where enc: "encode_chunks encode chunks = Inr cwe"
    by (cases "encode_chunks encode chunks") (auto simp: index_document_def)
  from res ex d ch ne enc
  have st: "store_chunks document_id d cwe c file_path overwrite = (Inr result, c')"
    by (simp add: index_document_def)
  have fst_cwe: "map fst cwe = chunks" using enc by (rule encode_chunks_fst)
  then have len: "length cwe = length chunks" by (metis length_map)
  with ne have cne: "cwe \<noteq> []" by auto
  have nth_cwe: "fst (cwe ! i) = chunks ! i" if "i < length chunks" for i
    using that fst_cwe len by (metis nth_map)
  define new where "new = map (\<lambda>(i, ce). \<lparr>rec_id = chunk_id document_id i,
                              rec_document = chunk_text (fst ce),
                              rec_metadata = record_metadata document_id d (fst ce),
                              rec_embedding = snd ce\<rparr>) (enumerate 0 cwe)"
  have recs: "records c' = (if overwrite
                          then filter (\<lambda>r. \<not> matches ''file_path'' file_path r) (records c)
                          else records c) @ new"
    unfolding new_def by (rule store_chunks_records [OF st cne])
  have lnew: "length new = length chunks" by (simp add: new_def len)
  have nth_new: "new ! i = \<lparr>rec_id = chunk_id document_id i,
                              rec_document = chunk_text (chunks ! i),
                              rec_metadata = record_metadata document_id d (chunks ! i),
                              rec_embedding = snd (cwe ! i)\<rparr>" if "i < length chunks" for i
    using that len nth_cwe [OF that] by (simp add: new_def nth_enumerate_eq)
  have idx: "chunk_index (chunks ! i) = int i" if "i < length chunks" for i
  proof -
    from ch have "split_text cfg (full_text d) (Some (split_metadata d)) = Some chunks"
      by (simp add: split_document_def)
    from split_text_chunk_ok [OF cs this that] show ?thesis by (simp add: chunk_ok_def)
  qed
  have per: "\<forall>i < length chunks.
                rec_id (new ! i) = document_id @ ''_chunk_'' @ py_str (chunk_index (chunks ! i))
              \<and> chunk_index (chunks ! i) = int i
              \<and> map_of (rec_metadata (new ! i)) ''chunk_index''
                   = Some (PInt (chunk_index (chunks ! i)))
              \<and> rec_document (new ! i) = chunk_text (chunks ! i)"
  proof (intro allI impI)
    fix i assume i: "i < length chunks"
    show "rec_id (new ! i) = document_id @ ''_chunk_'' @ py_str (chunk_index (chunks ! i))
              \<and> chunk_index (chunks ! i) = int i
              \<and> map_of (rec_metadata (new ! i)) ''chunk_index''
                   = Some (PInt (chunk_index (chunks ! i)))
              \<and> rec_document (new ! i) = chunk_text (chunks ! i)"
      by (simp add: nth_new [OF i] idx [OF i] chunk_id_def record_metadata_chunk_index)
  qed
  have "map rec_id new = map (chunk_id document_id) [0..<length cwe]"
    by (rule nth_equalityI) (simp_all add: new_def nth_enumerate_eq)
  then have dist: "distinct (map rec_id new)" by (simp only: chunk_ids_distinct)
  from d ch recs lnew per dist show ?thesis by blast
qed

theorem index_document_chunk_ids_witness:
  "1 \<le> chunk_size \<lparr>chunk_size = 10, chunk_overlap = 0, min_chunk_size = 5\<rparr>
   \<and> index_document \<lparr>chunk_size = 10, chunk_overlap = 0, min_chunk_size = 5\<rparr> True
        (Some \<lparr>doc_file_path = ''a.txt'', doc_file_name = ''a.txt'', doc_file_type = ''.txt'',
                full_text = ''aaaaaaaa. bbbbbbbbbbbb'', tables = [], images = [],
                doc_metadata = []\<rparr>)
        (\<lambda>ts. Inr (map (\<lambda>t. [1]) ts)) ''u1'' \<lparr>records = [], faults = []\<rparr> ''a.txt'' False
      = Some (Inr \<lparr>indexed = True, indexed_document_id = ''u1'', chunks_count = 2,
                    indexed_file_path = ''a.txt'', indexed_file_name = ''a.txt'',
                    indexed_message = ''Document successfully indexed: 2 chunks''\<rparr>,
              \<lparr>records =
                 [\<lparr>rec_id = ''u1_chunk_0'', rec_document = ''aaaaaaaa.'',
                    rec_metadata =
                      [(''document_id'', PStr ''u1''), (''file_path'', PStr ''a.txt''),
                       (''file_name'', PStr ''a.txt''), (''file_type'', PStr ''.txt''),
                       (''chunk_index'', PInt 0), (''start_char'', PInt 0),
                       (''end_char'', PInt 10), (''char_count'', PInt 9)],
                    rec_embedding = [1]\<rparr>,
                  \<lparr>rec_id = ''u1_chunk_1'', rec_document = ''bbbbbbbbbb'',
                    rec_metadata =
                      [(''document_id'', PStr ''u1''), (''file_path'', PStr ''a.txt''),
                       (''file_name'', PStr ''a.txt''), (''file_type'', PStr ''.txt''),
                       (''chunk_index'', PInt 1), (''start_char'', PInt 10),
                       (''end_char'', PInt 20), (''char_count'', PInt 10)],
                    rec_embedding = [1]\<rparr>],
                 faults = []\<rparr>)
   \<and> (\<exists>new. length new = 2
          \<and> [\<lparr>rec_id = ''u1_chunk_0'', rec_document = ''aaaaaaaa.'',
                    rec_metadata =
                      [(''document_id'', PStr ''u1''), (''file_path'', PStr ''a.txt''),
                       (''file_name'', PStr ''a.txt''), (''file_type'', PStr ''.txt''),
                       (''chunk_index'', PInt 0), (''start_char'', PInt 0),
                       (''end_char'', PInt 10), (''char_count'', PInt 9)],
                    rec_embedding = [1]\<rparr>,
                  \<lparr>rec_id = ''u1_chunk_1'', rec_document = ''bbbbbbbbbb'',
                    rec_metadata =
                      [(''document_id'', PStr ''u1''), (''file_path'', PStr ''a.txt''),
                       (''file_name'', PStr ''a.txt''), (''file_type'', PStr ''.txt''),
                       (''chunk_index'', PInt 1), (''start_char'', PInt 10),
                       (''end_char'', PInt 20), (''char_count'', PInt 10)],
                    rec_embedding = [1]\<rparr>] = [] @ new
          \<and> distinct (map rec_id new))"
proof -
  let ?cfg = "\<lparr>chunk_size = 10, chunk_overlap = 0, min_chunk_size = 5\<rparr>"
  let ?d = "\<lparr>doc_file_path = ''a.txt'', doc_file_name = ''a.txt'', doc_file_type = ''.txt'',
                full_text = ''aaaaaaaa. bbbbbbbbbbbb'', tables = [], images = [],
                doc_metadata = []\<rparr>"
  let ?enc = "\<lambda>ts::string list. (Inr (map (\<lambda>t. [1::real]) ts) :: error + real list list)"
  let ?c = "\<lparr>records = [], faults = []\<rparr>"
  let ?res = "\<lparr>indexed = True, indexed_document_id = ''u1'', chunks_count = 2,
                    indexed_file_path = ''a.txt'', indexed_file_name = ''a.txt'',
                    indexed_message = ''Document successfully indexed: 2 chunks''\<rparr>"
  let ?recs = "[\<lparr>rec_id = ''u1_chunk_0'', rec_document = ''aaaaaaaa.'',
                    rec_metadata =
                      [(''document_id'', PStr ''u1''), (''file_path'', PStr ''a.txt''),
                       (''file_name'', PStr ''a.txt''), (''file_type'', PStr ''.txt''),
                       (''chunk_index'', PInt 0), (''start_char'', PInt 0),
                       (''end_char'', PInt 10), (''char_count'', PInt 9)],
                    rec_embedding = [1]\<rparr>,
                  \<lparr>rec_id = ''u1_chunk_1'', rec_document = ''bbbbbbbbbb'',
                    rec_metadata =
                      [(''document_id'', PStr ''u1''), (''file_path'', PStr ''a.txt''),
                       (''file_name'', PStr ''a.txt''), (''file_type'', PStr ''.txt''),
                       (''chunk_index'', PInt 1), (''start_char'', PInt 10),
                       (''end_char'', PInt 20), (''char_count'', PInt 10)],
                    rec_embedding = [1]\<rparr>]"
  have h1: "1 \<le> chunk_size ?cfg" by simp
  have h2: "index_document ?cfg True (Some ?d) ?enc ''u1'' ?c ''a.txt'' False
      = Some (Inr ?res, \<lparr>records = ?recs, faults = []\<rparr>)"
    by code_simp
  from index_document_chunk_ids [OF h1 h2]
  obtain d chunks new where p: "Some ?d = Some d" "split_document ?cfg d = Some chunks"
      "records \<lparr>records = ?recs, faults = []\<rparr> = (if False
                          then filter (\<lambda>r. \<not> matches ''file_path'' ''a.txt'' r) (records ?c)
                          else records ?c) @ new"
      "length new = length chunks" "distinct (map rec_id new)"
    by blast
  from p(3) have n: "?recs = [] @ new" by simp
  have "length ?recs = 2" by simp
  with n have "length new = 2" by (simp del: list.inject)
  with n p(5) have "\<exists>new. length new = 2 \<and> ?recs = [] @ new \<and> distinct (map rec_id new)"
    by blast
  with h1 h2 show ?thesis by (intro conjI)
qed

section \<open>Properties of search\<close>









end
